theory Spec2Isabelle
  imports Complex_Main "HOL-Library.AList" "HOL-Library.Log_Nat"
begin

section \<open>JSON values as the graph builder receives them\<close>

text \<open>
  The value handed to \<open>generateFlow\<close> is the result of \<open>JSON.parse\<close>. An object is given
  by its own enumerable entries in the order \<open>Object.entries\<close> yields them; an array by its
  elements. Numbers are restricted to integers of magnitude below \<open>2^53\<close>, which \<open>String\<close>
  prints in plain decimal; a number reaches nothing but a label.
\<close>

datatype json =
    JNull
  | JBool bool
  | JNum int
  | JStr string
  | JArr "json list"
  | JObj "(string \<times> json) list"

subsection \<open>The JavaScript primitives the source uses\<close>

definition digit_char :: "nat \<Rightarrow> char" where
  "digit_char d = char_of (48 + d)"

fun String_nat :: "nat \<Rightarrow> string" where
  "String_nat n = (if n < 10 then [digit_char n] else String_nat (n div 10) @ [digit_char (n mod 10)])"

declare String_nat.simps [simp del]

text \<open>The same equation with the test as a case distinction, for evaluation.\<close>

lemma String_nat_code [code]:
  "String_nat n =
     (case n < 10 of
        True \<Rightarrow> [digit_char n]
      | False \<Rightarrow> String_nat (n div 10) @ [digit_char (n mod 10)])"
  by (subst String_nat.simps) simp

definition String_int :: "int \<Rightarrow> string" where
  "String_int i = (if i < 0 then CHR ''-'' # String_nat (nat (- i)) else String_nat (nat i))"

text \<open>\<open>typeof v === "object"\<close>: true of arrays, of objects and of \<open>null\<close>.\<close>

fun typeof_object :: "json \<Rightarrow> bool" where
  "typeof_object JNull = True"
| "typeof_object (JArr xs) = True"
| "typeof_object (JObj es) = True"
| "typeof_object v = False"

fun isArray :: "json \<Rightarrow> bool" where
  "isArray (JArr xs) = True"
| "isArray v = False"

text \<open>\<open>v !== null\<close>.\<close>

fun not_null :: "json \<Rightarrow> bool" where
  "not_null JNull = False"
| "not_null v = True"

text \<open>
  \<open>String(v)\<close>. The source applies it only where \<open>typeof v\<close> is not \<open>"object"\<close>; the
  remaining cases follow the language all the same: an array joins the strings of its
  elements with commas, \<open>null\<close> elements giving the empty string, and a plain object prints
  as \<open>[object Object]\<close>.
\<close>

fun join_comma :: "string list \<Rightarrow> string" where
  "join_comma [] = []"
| "join_comma [s] = s"
| "join_comma (s # t # ss) = s @ '','' @ join_comma (t # ss)"

fun js_String :: "json \<Rightarrow> string" where
  "js_String JNull = ''null''"
| "js_String (JBool b) = (if b then ''true'' else ''false'')"
| "js_String (JNum i) = String_int i"
| "js_String (JStr s) = s"
| "js_String (JArr xs) = join_comma (map (\<lambda>v. if v = JNull then [] else js_String v) xs)"
| "js_String (JObj es) = ''[object Object]''"

text \<open>\<open>Object.entries(v)\<close> for a non-null value of type \<open>"object"\<close>: an array's keys are its indices.\<close>

fun entries :: "json \<Rightarrow> (string \<times> json) list" where
  "entries (JArr xs) = zip (map String_nat [0..<length xs]) xs"
| "entries (JObj es) = es"
| "entries v = []"

section \<open>Nodes, edges and the component state\<close>

text \<open>
  The coordinate type is a parameter. The builder computes with reals (every coordinate it
  produces is an integer). The move handler uses only the \<open>+\<close> and \<open>-\<close> of the coordinate
  type, and what is proved of it over an arbitrary coordinate type assumes no law of
  arithmetic, so that it holds for rounded floating-point arithmetic as well. Drag start
  adds the literal 40 once and nothing proved of it computes with the sum.
\<close>

record 'a pos =
  pos_x :: 'a
  pos_y :: 'a

text \<open>The two inline style objects of the source: the one of a value node and the one of an entry node.\<close>

datatype node_style = ValueStyle | EntryStyle

record 'a node =
  node_id :: string
  label :: string
  position :: "'a pos"
  draggable :: bool
  style :: node_style

record edge =
  edge_id :: string
  source :: string
  target :: string

text \<open>
  A drag snapshot is a plain object filled by assignment: an association list, where
  assigning to a key already present replaces its value in place. The handlers look keys
  up and test whether any key differs from the dragged id; the order of the keys is not
  observable. All ids are decimal numerals, so no key is a property of \<open>Object.prototype\<close>.
\<close>

type_synonym 'a snapshot = "(string \<times> 'a pos) list"

record 'a app =
  nodes :: "'a node list"
  edges :: "edge list"
  idCounter :: nat
  parentMap :: "string \<rightharpoonup> string list"
  dragSnapshot :: "string \<rightharpoonup> 'a snapshot"
  error :: string

section \<open>generateFlow\<close>

text \<open>The accumulators \<open>traverse\<close> closes over: the counter, \<open>newNodes\<close>, \<open>newEdges\<close>, \<open>relations\<close>.\<close>

record build =
  counter :: nat
  newNodes :: "real node list"
  newEdges :: "edge list"
  relations :: "string \<rightharpoonup> string list"

text \<open>\<open>nextId\<close>: \<open>String(idCounter.current++)\<close>.\<close>

definition nextId :: "build \<Rightarrow> string \<times> build" where
  "nextId b = (String_nat (counter b), b\<lparr>counter := counter b + 1\<rparr>)"

text \<open>\<open>relations[p] = relations[p] || []; relations[p].push(c)\<close>.\<close>

definition push_relation :: "string \<Rightarrow> string \<Rightarrow> build \<Rightarrow> build" where
  "push_relation p c b =
     b\<lparr>relations := (relations b)(p \<mapsto> (case relations b p of None \<Rightarrow> [] | Some cs \<Rightarrow> cs) @ [c])\<rparr>"

definition push_edge :: "string \<Rightarrow> string \<Rightarrow> build \<Rightarrow> build" where
  "push_edge p c b =
     b\<lparr>newEdges := newEdges b @ [\<lparr>edge_id = ''e'' @ p @ ''-'' @ c, source = p, target = c\<rparr>]\<rparr>"

definition push_node :: "real node \<Rightarrow> build \<Rightarrow> build" where
  "push_node n b = b\<lparr>newNodes := newNodes b @ [n]\<rparr>"

text \<open>The label of a value's own node, and of an entry's node.\<close>

definition value_label :: "json \<Rightarrow> string" where
  "value_label v =
     (if typeof_object v then (if isArray v then ''Array'' else ''Object'') else js_String v)"

definition child_label :: "string \<Rightarrow> json \<Rightarrow> string" where
  "child_label key val = (if typeof_object val then key else key @ '': '' @ js_String val)"

definition spacing :: real where
  "spacing = 220"

text \<open>
  Termination: a call on a container descends to its entries, whose values are smaller;
  the measure of an entry list is the sum of the sizes of its values, each plus one.
\<close>

lemma zip_measure:
  "sum_list (map (\<lambda>(k, v). size v + 1) (zip ks xs)) \<le> size_list size xs"
proof (induction xs arbitrary: ks)
  case Nil
  show ?case by simp
next
  case (Cons a xs)
  show ?case
  proof (cases ks)
    case Nil
    then show ?thesis by simp
  next
    case (Cons k ks')
    then show ?thesis using Cons.IH [of ks'] by simp
  qed
qed

lemma entries_measure:
  "sum_list (map (\<lambda>(k, v). size v + 1) (entries nd)) < size nd \<or> \<not> (typeof_object nd \<and> not_null nd)"
proof (cases nd)
  case (JArr xs)
  then show ?thesis using zip_measure [of "map String_nat [0..<length xs]" xs]
    by (simp add: le_imp_less_Suc)
next
  case (JObj es)
  have "sum_list (map (\<lambda>(k, v). size v + 1) es) \<le> size_list (size_prod (\<lambda>_. 0) size) es"
    by (induction es) auto
  then show ?thesis using JObj by (simp add: le_imp_less_Suc)
qed auto

text \<open>
  \<open>traverse\<close> and the body of its \<open>entries.forEach\<close>. \<open>forEach_entries\<close> takes the entries
  still to visit, the index \<open>i\<close> of the first of them, and \<open>startX\<close>, \<open>y\<close>, \<open>depth\<close>,
  \<open>currentId\<close> of the enclosing call. In \<open>if (parentId)\<close>, \<open>null\<close> and the empty string
  are falsy.
\<close>

function traverse :: "json \<Rightarrow> nat \<Rightarrow> real \<Rightarrow> string option \<Rightarrow> build \<Rightarrow> build"
  and forEach_entries ::
    "(string \<times> json) list \<Rightarrow> nat \<Rightarrow> real \<Rightarrow> real \<Rightarrow> nat \<Rightarrow> string \<Rightarrow> build \<Rightarrow> build"
where
  "traverse nd depth centerX parentId b =
     (let (currentId, b1) = nextId b;
          y = real depth * 120;
          b2 = push_node \<lparr>node_id = currentId, label = value_label nd,
                 position = \<lparr>pos_x = centerX, pos_y = y\<rparr>, draggable = True,
                 style = ValueStyle\<rparr> b1;
          b3 = (case parentId of
                  None \<Rightarrow> b2
                | Some p \<Rightarrow>
                    if p \<noteq> [] then push_relation p currentId (push_edge p currentId b2) else b2)
      in if typeof_object nd \<and> not_null nd
         then (let childCount = length (entries nd);
                   totalWidth = real childCount * spacing;
                   startX = centerX - totalWidth / 2 + spacing / 2
               in forEach_entries (entries nd) 0 startX y depth currentId b3)
         else b3)"
| "forEach_entries [] i startX y depth currentId b = b"
| "forEach_entries ((key, val) # es) i startX y depth currentId b =
     (let childX = startX + real i * spacing;
          (childId, b1) = nextId b;
          b2 = push_node \<lparr>node_id = childId, label = child_label key val,
                 position = \<lparr>pos_x = childX, pos_y = y + 120\<rparr>, draggable = True,
                 style = EntryStyle\<rparr> b1;
          b3 = push_relation currentId childId (push_edge currentId childId b2);
          b4 = (if typeof_object val \<and> not_null val
                then traverse val (depth + 2) childX (Some childId) b3
                else b3)
      in forEach_entries es (i + 1) startX y depth currentId b4)"
  by pat_completeness auto

termination
  apply (relation "measure (\<lambda>a. case a of
      Inl (nd, depth, centerX, parentId, b) \<Rightarrow> 2 * size nd + 1
    | Inr (es, i, startX, y, depth, currentId, b) \<Rightarrow> 2 * sum_list (map (\<lambda>(k, v). size v + 1) es))")
  subgoal by simp
  subgoal for nd using entries_measure [of nd] by simp
  subgoal by simp
  subgoal by simp
  done

text \<open>
  \<open>generateFlow\<close>: fresh accumulators, the counter reset to 1, one traversal from the root,
  then the commit of nodes, edges and relations.
\<close>

definition fresh_build :: build where
  "fresh_build = \<lparr>counter = 1, newNodes = [], newEdges = [], relations = Map.empty\<rparr>"

definition generateFlow :: "real app \<Rightarrow> json \<Rightarrow> real app" where
  "generateFlow s obj =
     (let b = traverse obj 0 0 None fresh_build
      in s\<lparr>nodes := newNodes b, edges := newEdges b, idCounter := counter b,
            parentMap := relations b\<rparr>)"

subsection \<open>The effect run on a change of the input or of the mode\<close>

datatype display_mode = Format | Visualize

text \<open>
  What the effect sees of \<open>jsonInput\<close>: the empty string, a text on which \<open>JSON.parse\<close>
  throws, or a text that parses. The text area and \<open>formattedJson\<close> are left out.
\<close>

datatype json_input = EmptyInput | InvalidInput | ParsedInput json

fun inputEffect :: "real app \<Rightarrow> json_input \<Rightarrow> display_mode \<Rightarrow> real app" where
  "inputEffect s EmptyInput m = s\<lparr>error := [], nodes := [], edges := [], parentMap := Map.empty\<rparr>"
| "inputEffect s (ParsedInput parsed) m =
     (let s1 = s\<lparr>error := []\<rparr> in if m = Visualize then generateFlow s1 parsed else s1)"
| "inputEffect s InvalidInput m =
     s\<lparr>error := ''Invalid JSON!'', nodes := [], edges := [], parentMap := Map.empty\<rparr>"

section \<open>Hierarchical dragging\<close>

text \<open>
  \<open>collectDescendants\<close>: the \<open>while\<close> loop takes the first id of \<open>stack\<close>, records it and
  appends its children. On a relation map with a cycle below \<open>parentId\<close> the loop never
  ends, which is the value \<open>None\<close>.
\<close>

partial_function (option) collect_loop ::
  "(string \<rightharpoonup> string list) \<Rightarrow> string list \<Rightarrow> string list \<Rightarrow> string list option"
where
  "collect_loop pm stack collected =
     (case stack of
        [] \<Rightarrow> Some collected
      | child # rest \<Rightarrow>
          collect_loop pm
            (case pm child of
               None \<Rightarrow> rest
             | Some children \<Rightarrow> if children \<noteq> [] then rest @ children else rest)
            (collected @ [child]))"

declare collect_loop.simps [code]

definition collectDescendants :: "(string \<rightharpoonup> string list) \<Rightarrow> string \<Rightarrow> string list option" where
  "collectDescendants pm parentId =
     collect_loop pm (case pm parentId of None \<Rightarrow> [] | Some cs \<Rightarrow> cs) []"

text \<open>\<open>nodeMap\<close>: one assignment per live node, in order, so the last node of an id wins.\<close>

definition nodeMap :: "'a node list \<Rightarrow> (string \<rightharpoonup> 'a pos)" where
  "nodeMap nds = fold (\<lambda>n m. m(node_id n \<mapsto> position n)) nds Map.empty"

text \<open>The body of the loop over the descendants: the live position, or the fallback.\<close>

definition snapshot_entry ::
  "(string \<rightharpoonup> ('a::{plus,numeral}) pos) \<Rightarrow> 'a node \<Rightarrow> string \<Rightarrow> 'a pos" where
  "snapshot_entry nm nd d =
     (case nm d of
        Some p \<Rightarrow> \<lparr>pos_x = pos_x p, pos_y = pos_y p\<rparr>
      | None \<Rightarrow> \<lparr>pos_x = pos_x (position nd), pos_y = pos_y (position nd) + 40\<rparr>)"

definition onNodeDragStart :: "('a::{plus,numeral}) app \<Rightarrow> 'a node \<Rightarrow> 'a app option" where
  "onNodeDragStart s nd =
     (case collectDescendants (parentMap s) (node_id nd) of
        None \<Rightarrow> None
      | Some descendants \<Rightarrow>
          (let snapshot0 = [(node_id nd, \<lparr>pos_x = pos_x (position nd), pos_y = pos_y (position nd)\<rparr>)];
               nm = nodeMap (nodes s);
               snapshot = fold (\<lambda>d snap. AList.update d (snapshot_entry nm nd d) snap)
                            descendants snapshot0
           in Some (s\<lparr>dragSnapshot := (dragSnapshot s)(node_id nd \<mapsto> snapshot)\<rparr>)))"

datatype js_error = TypeError

text \<open>
  \<open>onNodeDrag\<close>. Reading \<open>startPos.x\<close> on a snapshot without an entry for its own key
  throws; \<open>setNodes\<close> with an updater maps over the live nodes.
\<close>

definition move_node :: "('a::plus) snapshot \<Rightarrow> 'a \<Rightarrow> 'a \<Rightarrow> 'a node \<Rightarrow> 'a node" where
  "move_node snapshot dx dy n =
     (case map_of snapshot (node_id n) of
        Some p \<Rightarrow> n\<lparr>position := \<lparr>pos_x = pos_x p + dx, pos_y = pos_y p + dy\<rparr>\<rparr>
      | None \<Rightarrow> n)"

definition onNodeDrag :: "('a::{plus,minus}) app \<Rightarrow> 'a node \<Rightarrow> js_error + 'a app" where
  "onNodeDrag s nd =
     (case dragSnapshot s (node_id nd) of
        None \<Rightarrow> Inr s
      | Some snapshot \<Rightarrow>
          (case map_of snapshot (node_id nd) of
             None \<Rightarrow> Inl TypeError
           | Some startPos \<Rightarrow>
               (let dx = pos_x (position nd) - pos_x startPos;
                    dy = pos_y (position nd) - pos_y startPos;
                    descendants = filter (\<lambda>i. i \<noteq> node_id nd) (map fst snapshot)
                in if length descendants = 0 then Inr s
                   else Inr (s\<lparr>nodes := map (move_node snapshot dx dy) (nodes s)\<rparr>))))"

definition onNodeDragStop :: "'a app \<Rightarrow> 'a node \<Rightarrow> 'a app" where
  "onNodeDragStop s nd = s\<lparr>dragSnapshot := (dragSnapshot s)(node_id nd := None)\<rparr>"

subsection \<open>A move as the program performs it\<close>

text \<open>
  Modelled from the spec: the renderer's part of a move. The rendering component is not
  part of the sources; the specification has it apply a position update onto the node set
  and raise a move event that carries the node's identifier and its current position.
  The component hands it \<open>onNodesChange\<close> of \<open>useNodesState\<close> (lines 36 and 340), so the
  dragged node is at the position of the event in the live nodes when \<open>onNodeDrag\<close> runs.
  \<open>library_move\<close> is that update; \<open>DragMove\<close> is the update followed by the handler.
\<close>

definition library_move :: "'a app \<Rightarrow> 'a node \<Rightarrow> 'a app" where
  "library_move s nd =
     s\<lparr>nodes := map (\<lambda>n. if node_id n = node_id nd then n\<lparr>position := position nd\<rparr> else n)
                    (nodes s)\<rparr>"

definition DragMove :: "('a::{plus,minus}) app \<Rightarrow> 'a node \<Rightarrow> js_error + 'a app" where
  "DragMove s nd = onNodeDrag (library_move s nd) nd"

section \<open>The arithmetic of the program's numbers\<close>

text \<open>
  A JavaScript number is a binary64 floating-point number. \<open>dbl\<close> is the type of the finite
  ones, each given by its value; \<open>round_dbl\<close> rounds a rational to the nearest of them, ties
  to the even significand, with the fixed spacing \<open>2^-1074\<close> at the bottom of the range.
  Sum and difference are the exact result, rounded. Results beyond the largest finite
  number, \<open>NaN\<close> and the sign of zero are left out.
\<close>

definition pow2 :: "int \<Rightarrow> rat" where
  "pow2 k = (if 0 \<le> k then 2 ^ nat k else 1 / 2 ^ nat (- k))"

text \<open>The exponent of a non-zero rational: the \<open>e\<close> with \<open>2^e \<le> |q| < 2^(e+1)\<close>.\<close>

definition exponent_of :: "rat \<Rightarrow> int" where
  "exponent_of q =
     (let t = bitlen \<bar>fst (quotient_of q)\<bar> - bitlen (snd (quotient_of q))
      in if \<bar>q\<bar> < pow2 t then t - 1 else t)"

definition round_half_even :: "rat \<Rightarrow> int" where
  "round_half_even q =
     (let f = \<lfloor>q\<rfloor>; r = q - of_int f
      in if r < 1 / 2 then f else if 1 / 2 < r then f + 1 else if even f then f else f + 1)"

definition round_dbl :: "rat \<Rightarrow> rat" where
  "round_dbl q =
     (if q = 0 then 0
      else let u = pow2 (max (exponent_of q - 52) (- 1074))
           in of_int (round_half_even (q / u)) * u)"

datatype dbl = Dbl rat

fun dbl_value :: "dbl \<Rightarrow> rat" where
  "dbl_value (Dbl q) = q"

text \<open>The number that a decimal literal denotes.\<close>

definition dbl_of :: "rat \<Rightarrow> dbl" where
  "dbl_of q = Dbl (round_dbl q)"

instantiation dbl :: "{plus, minus}"
begin

definition plus_dbl :: "dbl \<Rightarrow> dbl \<Rightarrow> dbl" where
  "plus_dbl a b = Dbl (round_dbl (dbl_value a + dbl_value b))"

definition minus_dbl :: "dbl \<Rightarrow> dbl \<Rightarrow> dbl" where
  "minus_dbl a b = Dbl (round_dbl (dbl_value a - dbl_value b))"

instance ..

end

section \<open>Vocabulary of the properties\<close>

subsection \<open>The steps of the traversal, named\<close>

text \<open>
  A container is a value that passes \<open>typeof v === "object" && v !== null\<close>. The
  definitions below name the state after the node of a value, respectively of an entry,
  has been pushed and linked, so that \<open>traverse\<close> and \<open>forEach_entries\<close> unfold in one
  step each.
\<close>

definition is_container :: "json \<Rightarrow> bool" where
  "is_container v = (typeof_object v \<and> not_null v)"

definition link_parent :: "string option \<Rightarrow> string \<Rightarrow> build \<Rightarrow> build" where
  "link_parent parentId currentId b =
     (case parentId of
        None \<Rightarrow> b
      | Some p \<Rightarrow> if p \<noteq> [] then push_relation p currentId (push_edge p currentId b) else b)"

definition value_node :: "json \<Rightarrow> nat \<Rightarrow> real \<Rightarrow> string \<Rightarrow> real node" where
  "value_node nd depth centerX currentId =
     \<lparr>node_id = currentId, label = value_label nd,
      position = \<lparr>pos_x = centerX, pos_y = real depth * 120\<rparr>, draggable = True,
      style = ValueStyle\<rparr>"

definition enter_value :: "json \<Rightarrow> nat \<Rightarrow> real \<Rightarrow> string option \<Rightarrow> build \<Rightarrow> build" where
  "enter_value nd depth centerX parentId b =
     link_parent parentId (String_nat (counter b))
       (push_node (value_node nd depth centerX (String_nat (counter b))) (snd (nextId b)))"

definition entry_node :: "string \<Rightarrow> json \<Rightarrow> real \<Rightarrow> real \<Rightarrow> string \<Rightarrow> real node" where
  "entry_node key val childX y childId =
     \<lparr>node_id = childId, label = child_label key val,
      position = \<lparr>pos_x = childX, pos_y = y + 120\<rparr>, draggable = True, style = EntryStyle\<rparr>"

definition enter_entry :: "string \<Rightarrow> json \<Rightarrow> nat \<Rightarrow> real \<Rightarrow> real \<Rightarrow> string \<Rightarrow> build \<Rightarrow> build" where
  "enter_entry key val i startX y currentId b =
     push_relation currentId (String_nat (counter b))
       (push_edge currentId (String_nat (counter b))
          (push_node (entry_node key val (startX + real i * spacing) y (String_nat (counter b)))
             (snd (nextId b))))"

definition startX_of :: "real \<Rightarrow> json \<Rightarrow> real" where
  "startX_of centerX nd = centerX - real (length (entries nd)) * spacing / 2 + spacing / 2"

subsection \<open>Counting nodes\<close>

text \<open>
  The counts as the specification words them: \<open>entry_total v\<close> is the number of entries
  across every container met in the traversal of \<open>v\<close>; \<open>container_entries v\<close> is the number
  of those entries whose value is itself a container.
\<close>

fun entry_total :: "json \<Rightarrow> nat" where
  "entry_total (JArr xs) = length xs + sum_list (map entry_total xs)"
| "entry_total (JObj es) = length es + sum_list (map (\<lambda>e. entry_total (snd e)) es)"
| "entry_total v = 0"

fun container_entries :: "json \<Rightarrow> nat" where
  "container_entries (JArr xs) =
     length (filter is_container xs) + sum_list (map container_entries xs)"
| "container_entries (JObj es) =
     length (filter (\<lambda>e. is_container (snd e)) es) +
     sum_list (map (\<lambda>e. container_entries (snd e)) es)"
| "container_entries v = 0"

definition subtree_nodes :: "json \<Rightarrow> nat" where
  "subtree_nodes v = 1 + entry_total v + container_entries v"

definition entry_nodes :: "json \<Rightarrow> nat" where
  "entry_nodes v = 1 + (if is_container v then subtree_nodes v else 0)"

subsection \<open>Relation index and edges as sets of pairs\<close>

text \<open>\<open>children_of rel p\<close> is \<open>rel[p]\<close>, read as no children where \<open>rel[p]\<close> is undefined.\<close>

definition children_of :: "(string \<rightharpoonup> string list) \<Rightarrow> string \<Rightarrow> string list" where
  "children_of rel p = (case rel p of None \<Rightarrow> [] | Some cs \<Rightarrow> cs)"

definition edge_pairs :: "edge list \<Rightarrow> (string \<times> string) set" where
  "edge_pairs es = (\<lambda>e. (source e, target e)) ` set es"

definition rel_pairs :: "(string \<rightharpoonup> string list) \<Rightarrow> (string \<times> string) set" where
  "rel_pairs rel = {(p, c). c \<in> set (children_of rel p)}"

text \<open>
  Reading a decimal numeral back, and the property that every edge of a build goes from
  an earlier id to a later one, both below the counter.
\<close>

definition digit_val :: "char \<Rightarrow> nat" where
  "digit_val c = of_char c - 48"

definition nat_of_String :: "string \<Rightarrow> nat" where
  "nat_of_String cs = foldl (\<lambda>a c. 10 * a + digit_val c) 0 cs"

definition edges_ascend :: "build \<Rightarrow> bool" where
  "edges_ascend b =
     (\<forall>e \<in> set (newEdges b). \<exists>a k. source e = String_nat a \<and> target e = String_nat k \<and>
        a < k \<and> k < counter b)"

subsection \<open>Sequences of drag events\<close>

text \<open>
  \<open>drag_moves\<close> runs \<open>DragMove\<close> on the events in the order raised and stops at the first
  exception. \<open>delta_x\<close>, \<open>delta_y\<close> are \<open>dx\<close>, \<open>dy\<close> of the handler; \<open>snapshot_ids s r\<close> are
  the keys of the snapshot stored for \<open>r\<close>; \<open>fallback_pos\<close> is the position a descendant
  missing from the live nodes is given at drag start.
\<close>

fun drag_moves :: "('a::{plus,minus}) app \<Rightarrow> 'a node list \<Rightarrow> js_error + 'a app" where
  "drag_moves s [] = Inr s"
| "drag_moves s (nd # nds) =
     (case DragMove s nd of Inl e \<Rightarrow> Inl e | Inr s' \<Rightarrow> drag_moves s' nds)"

definition delta_x :: "('a::minus) node \<Rightarrow> 'a pos \<Rightarrow> 'a" where
  "delta_x nd p0 = pos_x (position nd) - pos_x p0"

definition delta_y :: "('a::minus) node \<Rightarrow> 'a pos \<Rightarrow> 'a" where
  "delta_y nd p0 = pos_y (position nd) - pos_y p0"

definition snapshot_ids :: "'a app \<Rightarrow> string \<Rightarrow> string set" where
  "snapshot_ids s r = (case dragSnapshot s r of None \<Rightarrow> {} | Some S \<Rightarrow> fst ` set S)"

definition fallback_pos :: "('a::{plus,numeral}) node \<Rightarrow> 'a pos" where
  "fallback_pos nd = \<lparr>pos_x = pos_x (position nd), pos_y = pos_y (position nd) + 40\<rparr>"

subsection \<open>Concrete inputs\<close>

text \<open>
  The state before any input; the graph of \<open>{"a": 1, "b": {"c": 2}}\<close>, whose nodes are
  1 (the root), 2 (\<open>a: 1\<close>), 3 (\<open>b\<close>), 4 (the object under \<open>b\<close>) and 5 (\<open>c: 2\<close>); the same
  graph with a drag started on node 3; and the graph of \<open>[]\<close>, a single node, with a drag
  started on it.
\<close>

definition app0 :: "real app" where
  "app0 = \<lparr>nodes = [], edges = [], idCounter = 1, parentMap = Map.empty,
            dragSnapshot = Map.empty, error = []\<rparr>"

definition example_json :: json where
  "example_json = JObj [(''a'', JNum 1), (''b'', JObj [(''c'', JNum 2)])]"

definition example_graph :: "real app" where
  "example_graph = generateFlow app0 example_json"

definition a_entry :: "real node" where
  "a_entry = \<lparr>node_id = ''2'', label = ''a: 1'', position = \<lparr>pos_x = - 110, pos_y = 120\<rparr>,
              draggable = True, style = EntryStyle\<rparr>"

definition b_entry :: "real node" where
  "b_entry = \<lparr>node_id = ''3'', label = ''b'', position = \<lparr>pos_x = 110, pos_y = 120\<rparr>,
              draggable = True, style = EntryStyle\<rparr>"

definition b_snapshot :: "real snapshot" where
  "b_snapshot = [(''3'', \<lparr>pos_x = 110, pos_y = 120\<rparr>), (''4'', \<lparr>pos_x = 110, pos_y = 240\<rparr>),
                 (''5'', \<lparr>pos_x = 110, pos_y = 360\<rparr>)]"

definition drag_started :: "real app" where
  "drag_started =
     (case onNodeDragStart example_graph b_entry of Some s \<Rightarrow> s | None \<Rightarrow> example_graph)"

text \<open>The node of a drag event: the dragged node at the pointer's position.\<close>

definition dragged_to :: "'a node \<Rightarrow> 'a \<Rightarrow> 'a \<Rightarrow> 'a node" where
  "dragged_to nd x y = nd\<lparr>position := \<lparr>pos_x = x, pos_y = y\<rparr>\<rparr>"

definition moved_state :: "real app" where
  "moved_state = drag_started\<lparr>nodes := map (move_node b_snapshot 50 30) (nodes drag_started)\<rparr>"

definition leaf_graph :: "real app" where
  "leaf_graph = generateFlow app0 (JArr [])"

definition root_node :: "real node" where
  "root_node = \<lparr>node_id = ''1'', label = ''Array'', position = \<lparr>pos_x = 0, pos_y = 0\<rparr>,
                draggable = True, style = ValueStyle\<rparr>"

definition leaf_started :: "real app" where
  "leaf_started =
     (case onNodeDragStart leaf_graph root_node of Some s \<Rightarrow> s | None \<Rightarrow> leaf_graph)"

text \<open>The example graph after node 5 has been removed from the live nodes only.\<close>

definition pruned_graph :: "real app" where
  "pruned_graph =
     example_graph\<lparr>nodes := filter (\<lambda>n. node_id n \<noteq> ''5'') (nodes example_graph)\<rparr>"

text \<open>
  Two moves in the arithmetic of the program. A childless node 2 at (-110, 120) with a
  drag started on it is dragged to (50.3, 120); and node 3 at (110, 120), with its child 4
  at (110, 240) and a drag started on it, is dragged to (0.1, 120).
\<close>

definition rounding_leaf :: "dbl app" where
  "rounding_leaf =
     \<lparr>nodes = [\<lparr>node_id = ''2'', label = ''a: 1'',
                position = \<lparr>pos_x = Dbl (- 110), pos_y = Dbl 120\<rparr>, draggable = True,
                style = EntryStyle\<rparr>],
      edges = [], idCounter = 3, parentMap = Map.empty,
      dragSnapshot = [''2'' \<mapsto> [(''2'', \<lparr>pos_x = Dbl (- 110), pos_y = Dbl 120\<rparr>)]],
      error = []\<rparr>"

definition rounding_leaf_event :: "dbl node" where
  "rounding_leaf_event =
     \<lparr>node_id = ''2'', label = ''a: 1'',
      position = \<lparr>pos_x = dbl_of (503 / 10), pos_y = Dbl 120\<rparr>, draggable = True,
      style = EntryStyle\<rparr>"

definition rounding_tree :: "dbl app" where
  "rounding_tree =
     \<lparr>nodes = [\<lparr>node_id = ''3'', label = ''b'',
                position = \<lparr>pos_x = Dbl 110, pos_y = Dbl 120\<rparr>, draggable = True,
                style = EntryStyle\<rparr>,
               \<lparr>node_id = ''4'', label = ''Object'',
                position = \<lparr>pos_x = Dbl 110, pos_y = Dbl 240\<rparr>, draggable = True,
                style = ValueStyle\<rparr>],
      edges = [\<lparr>edge_id = ''e3-4'', source = ''3'', target = ''4''\<rparr>], idCounter = 5,
      parentMap = [''3'' \<mapsto> [''4'']],
      dragSnapshot = [''3'' \<mapsto> [(''3'', \<lparr>pos_x = Dbl 110, pos_y = Dbl 120\<rparr>),
                                (''4'', \<lparr>pos_x = Dbl 110, pos_y = Dbl 240\<rparr>)]],
      error = []\<rparr>"

definition rounding_tree_event :: "dbl node" where
  "rounding_tree_event =
     \<lparr>node_id = ''3'', label = ''b'',
      position = \<lparr>pos_x = dbl_of (1 / 10), pos_y = Dbl 120\<rparr>, draggable = True,
      style = EntryStyle\<rparr>"

text \<open>The live position of an id in the state a move returns.\<close>

definition live_after :: "js_error + 'a app \<Rightarrow> string \<Rightarrow> 'a pos option" where
  "live_after res i = (case res of Inl e \<Rightarrow> None | Inr s \<Rightarrow> nodeMap (nodes s) i)"

text \<open>The snapshot stored for an id in the state a drag start returns.\<close>

definition stored_snapshot :: "'a app option \<Rightarrow> string \<Rightarrow> 'a snapshot option" where
  "stored_snapshot res i = (case res of None \<Rightarrow> None | Some s \<Rightarrow> dragSnapshot s i)"

section \<open>Properties of the graph builder\<close>

subsection \<open>Unfolding and induction\<close>

lemma traverse_unfold [code]:
  "traverse nd depth centerX parentId b =
     (if is_container nd
      then forEach_entries (entries nd) 0 (startX_of centerX nd) (real depth * 120) depth
             (String_nat (counter b)) (enter_value nd depth centerX parentId b)
      else enter_value nd depth centerX parentId b)"
  by (simp add: is_container_def enter_value_def link_parent_def value_node_def startX_of_def
        nextId_def Let_def)

lemma forEach_entries_Cons [code]:
  "forEach_entries ((key, val) # es) i startX y depth currentId b =
     forEach_entries es (i + 1) startX y depth currentId
       (if is_container val
        then traverse val (depth + 2) (startX + real i * spacing) (Some (String_nat (counter b)))
               (enter_entry key val i startX y currentId b)
        else enter_entry key val i startX y currentId b)"
  by (simp add: is_container_def enter_entry_def entry_node_def nextId_def Let_def
        del: traverse.simps)

declare traverse.simps [simp del] forEach_entries.simps(2) [simp del]

declare forEach_entries.simps(1) [code]

text \<open>
  Induction along the traversal: a value's case may use the property of its entry list
  when the value is a container, and an entry's case the property of its value under the
  same condition.
\<close>

lemma json_entries_induct [case_names Value Nil Cons]:
  assumes step_value: "\<And>nd. (is_container nd \<Longrightarrow> Q (entries nd)) \<Longrightarrow> P nd"
    and step_nil: "Q []"
    and step_cons: "\<And>key val es. (is_container val \<Longrightarrow> P val) \<Longrightarrow> Q es \<Longrightarrow> Q ((key, val) # es)"
  shows "P nd" and "Q es"
proof -
  have list: "Q es" if "\<forall>e \<in> set es. P (snd e)" for es
    using that
  proof (induction es)
    case Nil
    show ?case by (rule step_nil)
  next
    case (Cons e es)
    obtain key val where e: "e = (key, val)" by (cases e)
    show ?case unfolding e using Cons e by (intro step_cons) auto
  qed
  have all: "P v" for v
  proof (induction v)
    case (JArr xs)
    have "\<forall>e \<in> set (entries (JArr xs)). P (snd e)"
      using JArr by (auto dest: set_zip_rightD)
    then show ?case by (intro step_value list)
  next
    case (JObj es)
    have "\<forall>e \<in> set (entries (JObj es)). P (snd e)"
      using JObj by (auto simp: snds.simps)
    then show ?case by (intro step_value list)
  qed (auto intro!: step_value simp: is_container_def)
  show "P nd" by (rule all)
  show "Q es" by (rule list) (simp add: all)
qed

subsection \<open>Node count\<close>

lemma not_container_totals:
  "\<not> is_container v \<Longrightarrow> entry_total v = 0 \<and> container_entries v = 0"
  by (cases v) (auto simp: is_container_def)

lemma subtree_nodes_container:
  "is_container nd \<Longrightarrow> subtree_nodes nd = 1 + sum_list (map entry_nodes (map snd (entries nd)))"
proof (cases nd)
  case (JArr xs)
  have "length xs + sum_list (map entry_total xs) +
      (length (filter is_container xs) + sum_list (map container_entries xs)) =
      sum_list (map entry_nodes xs)"
    by (induction xs) (auto simp: entry_nodes_def subtree_nodes_def not_container_totals)
  then show ?thesis using JArr by (simp add: subtree_nodes_def)
next
  case (JObj es)
  have "length es + sum_list (map (\<lambda>e. entry_total (snd e)) es) +
      (length (filter (\<lambda>e. is_container (snd e)) es) +
       sum_list (map (\<lambda>e. container_entries (snd e)) es)) =
      sum_list (map entry_nodes (map snd es))"
    by (induction es) (auto simp: entry_nodes_def subtree_nodes_def not_container_totals)
  then show ?thesis using JObj by (simp add: subtree_nodes_def)
qed (auto simp: is_container_def)

lemma newNodes_push:
  "newNodes (push_node n b) = newNodes b @ [n]"
  "newNodes (push_edge p c b) = newNodes b"
  "newNodes (push_relation p c b) = newNodes b"
  "newNodes (snd (nextId b)) = newNodes b"
  by (simp_all add: push_node_def push_edge_def push_relation_def nextId_def)

lemma newNodes_enter:
  "newNodes (enter_value nd depth centerX parentId b) =
     newNodes b @ [value_node nd depth centerX (String_nat (counter b))]"
  "newNodes (enter_entry key val i startX y currentId b) =
     newNodes b @ [entry_node key val (startX + real i * spacing) y (String_nat (counter b))]"
  by (simp_all add: enter_value_def enter_entry_def link_parent_def newNodes_push
        split: option.splits)

lemma traverse_count:
  "\<forall>depth centerX parentId b.
     length (newNodes (traverse nd depth centerX parentId b)) =
       length (newNodes b) + subtree_nodes nd"
  "\<forall>i startX y depth currentId b.
     length (newNodes (forEach_entries es i startX y depth currentId b)) =
       length (newNodes b) + sum_list (map entry_nodes (map snd es))"
proof (induction nd and es rule: json_entries_induct)
  case (Value nd)
  show ?case
  proof (cases "is_container nd")
    case True
    then show ?thesis using Value subtree_nodes_container [OF True]
      by (simp add: traverse_unfold newNodes_enter)
  next
    case False
    then show ?thesis
      by (simp add: traverse_unfold newNodes_enter subtree_nodes_def not_container_totals)
  qed
next
  case Nil
  show ?case by simp
next
  case (Cons key val es)
  then show ?case
    by (simp add: forEach_entries_Cons newNodes_enter entry_nodes_def)
qed

lemma example_graph_ids:
  "map node_id (nodes example_graph) = [''1'', ''2'', ''3'', ''4'', ''5'']"
  by code_simp

text \<open>
  C2, as stated, fails: on \<open>{"a": 1, "b": {"c": 2}}\<close> the builder makes five nodes, while one
  plus the number of entries (two in the root, one under \<open>b\<close>) is four. The nested container
  under \<open>b\<close> has a node of its own besides the node of its entry.
\<close>

theorem node_count_counterexample:
  "length (nodes (generateFlow app0 example_json)) \<noteq> 1 + entry_total example_json"
proof -
  have "length (map node_id (nodes example_graph)) = 5"
    by (simp only: example_graph_ids) simp
  then have "length (nodes (generateFlow app0 example_json)) = 5"
    by (simp add: example_graph_def)
  moreover have "entry_total example_json = 3"
    by code_simp
  ultimately show ?thesis by simp
qed

text \<open>
  C2, amended: for every JSON value \<open>v\<close>, \<open>generateFlow\<close> produces one node for the root, one
  node for every entry of every container met in the traversal, and one more node for every
  entry whose value is itself a container; primitives contribute no further node.
\<close>

theorem generateFlow_node_count:
  "length (nodes (generateFlow s v)) = 1 + entry_total v + container_entries v"
  by (simp add: generateFlow_def Let_def traverse_count(1) fresh_build_def subtree_nodes_def)

subsection \<open>Relation index and edges\<close>

lemma pairs_push:
  "rel_pairs (relations (push_relation p c b)) = insert (p, c) (rel_pairs (relations b))"
  "edge_pairs (newEdges (push_edge p c b)) = insert (p, c) (edge_pairs (newEdges b))"
  "relations (push_edge p c b) = relations b"
  "newEdges (push_relation p c b) = newEdges b"
  "relations (push_node n b) = relations b"
  "newEdges (push_node n b) = newEdges b"
  "relations (snd (nextId b)) = relations b"
  "newEdges (snd (nextId b)) = newEdges b"
  by (auto simp: rel_pairs_def edge_pairs_def children_of_def push_relation_def push_edge_def
        push_node_def nextId_def split: option.splits if_splits)

lemma pairs_enter:
  assumes "rel_pairs (relations b) = edge_pairs (newEdges b)"
  shows "rel_pairs (relations (enter_value nd depth centerX parentId b)) =
           edge_pairs (newEdges (enter_value nd depth centerX parentId b))"
    and "rel_pairs (relations (enter_entry key val i startX y currentId b)) =
           edge_pairs (newEdges (enter_entry key val i startX y currentId b))"
  using assms
  by (simp_all add: enter_value_def enter_entry_def link_parent_def pairs_push
        split: option.splits)

lemma traverse_pairs:
  "\<forall>depth centerX parentId b.
     rel_pairs (relations b) = edge_pairs (newEdges b) \<longrightarrow>
     rel_pairs (relations (traverse nd depth centerX parentId b)) =
       edge_pairs (newEdges (traverse nd depth centerX parentId b))"
  "\<forall>i startX y depth currentId b.
     rel_pairs (relations b) = edge_pairs (newEdges b) \<longrightarrow>
     rel_pairs (relations (forEach_entries es i startX y depth currentId b)) =
       edge_pairs (newEdges (forEach_entries es i startX y depth currentId b))"
proof (induction nd and es rule: json_entries_induct)
  case (Value nd)
  then show ?case
    by (simp add: traverse_unfold pairs_enter)
next
  case Nil
  show ?case by simp
next
  case (Cons key val es)
  then show ?case
    by (simp add: forEach_entries_Cons pairs_enter)
qed

lemma generateFlow_pairs:
  "rel_pairs (parentMap (generateFlow s v)) = edge_pairs (edges (generateFlow s v))"
proof -
  have "rel_pairs (relations fresh_build) = edge_pairs (newEdges fresh_build)"
    by (simp add: fresh_build_def rel_pairs_def edge_pairs_def children_of_def)
  then have "rel_pairs (relations (traverse v 0 0 None fresh_build)) =
      edge_pairs (newEdges (traverse v 0 0 None fresh_build))"
    using traverse_pairs(1) [of v] by blast
  then show ?thesis by (simp add: generateFlow_def Let_def)
qed

text \<open>
  C3: in the graph built from any JSON value, \<open>c\<close> is in the relation index under \<open>p\<close> exactly
  when an edge with source \<open>p\<close> and target \<open>c\<close> is in the edge list.
\<close>

theorem relationIndex_agrees_with_edges:
  "c \<in> set (children_of (parentMap (generateFlow s v)) p) \<longleftrightarrow>
     (p, c) \<in> edge_pairs (edges (generateFlow s v))"
  using generateFlow_pairs [of s v] by (auto simp: rel_pairs_def)

subsection \<open>Determinism\<close>

text \<open>
  C4: whatever the states \<open>s1\<close> and \<open>s2\<close> in which \<open>generateFlow\<close> is called on the same value,
  the nodes (ids, labels, positions), the edges, the relation index and the counter it
  commits are the same.
\<close>

theorem generateFlow_deterministic:
  "nodes (generateFlow s1 v) = nodes (generateFlow s2 v) \<and>
   edges (generateFlow s1 v) = edges (generateFlow s2 v) \<and>
   parentMap (generateFlow s1 v) = parentMap (generateFlow s2 v) \<and>
   idCounter (generateFlow s1 v) = idCounter (generateFlow s2 v)"
  by (simp add: generateFlow_def Let_def)

subsection \<open>Labels\<close>

text \<open>Away from \<open>null\<close> the two label expressions follow the rule of the specification.\<close>

lemma value_label_rule:
  "value_label (JArr xs) = ''Array''"
  "value_label (JObj es) = ''Object''"
  "value_label (JBool t) = js_String (JBool t)"
  "value_label (JNum i) = js_String (JNum i)"
  "value_label (JStr str) = str"
  by (simp_all add: value_label_def)

lemma child_label_rule:
  "is_container val \<Longrightarrow> child_label key val = key"
  "\<not> typeof_object val \<Longrightarrow> child_label key val = key @ '': '' @ js_String val"
  by (simp_all add: child_label_def is_container_def)

text \<open>
  C6 at \<open>null\<close>: a root \<open>null\<close> is labelled \<open>Object\<close>, not \<open>null\<close>, and the entry \<open>a\<close> of
  \<open>{"a": null}\<close> is labelled with the bare key \<open>a\<close>, not \<open>a: null\<close>, because the two label
  expressions test \<open>typeof\<close> alone, without the \<open>!== null\<close> that guards the descent.
\<close>

theorem null_labels:
  "map label (nodes (generateFlow app0 JNull)) = [''Object''] \<and>
   map label (nodes (generateFlow app0 (JObj [(''a'', JNull)]))) = [''Object'', ''a'']"
  by code_simp

subsection \<open>The relation index of a build has no cycle\<close>

lemma digit_val_char: "d < 10 \<Longrightarrow> digit_val (digit_char d) = d"
  by (simp add: digit_val_def digit_char_def)

lemma nat_of_String_nat: "nat_of_String (String_nat n) = n"
proof (induction n rule: String_nat.induct)
  case (1 n)
  show ?case
  proof (cases "n < 10")
    case True
    then show ?thesis
      by (subst String_nat.simps) (simp add: nat_of_String_def digit_val_char)
  next
    case False
    then have "nat_of_String (String_nat (n div 10)) = n div 10" using 1 by simp
    then have "nat_of_String (String_nat (n div 10) @ [digit_char (n mod 10)]) =
        10 * (n div 10) + n mod 10"
      by (simp add: nat_of_String_def digit_val_char)
    then show ?thesis using False by (subst String_nat.simps) simp
  qed
qed

lemma counter_enter:
  "counter (enter_value nd depth centerX parentId b) = counter b + 1"
  "counter (enter_entry key val i startX y currentId b) = counter b + 1"
  by (simp_all add: enter_value_def enter_entry_def link_parent_def push_relation_def
        push_edge_def push_node_def nextId_def split: option.splits)

lemma edges_ascend_enter_value:
  assumes "edges_ascend b"
    and "\<forall>p. parentId = Some p \<longrightarrow> (\<exists>a < counter b. p = String_nat a)"
  shows "edges_ascend (enter_value nd depth centerX parentId b)"
  using assms
  by (fastforce simp: edges_ascend_def enter_value_def link_parent_def push_relation_def
        push_edge_def push_node_def nextId_def split: option.splits)

lemma edges_ascend_enter_entry:
  assumes "edges_ascend b" and "\<exists>a < counter b. currentId = String_nat a"
  shows "edges_ascend (enter_entry key val i startX y currentId b)"
  using assms
  by (fastforce simp: edges_ascend_def enter_entry_def push_relation_def
        push_edge_def push_node_def nextId_def)

lemma traverse_ascend:
  "\<forall>depth centerX parentId b.
     edges_ascend b \<and> (\<forall>p. parentId = Some p \<longrightarrow> (\<exists>a < counter b. p = String_nat a)) \<longrightarrow>
     edges_ascend (traverse nd depth centerX parentId b) \<and>
     counter b \<le> counter (traverse nd depth centerX parentId b)"
  "\<forall>i startX y depth currentId b.
     edges_ascend b \<and> (\<exists>a < counter b. currentId = String_nat a) \<longrightarrow>
     edges_ascend (forEach_entries es i startX y depth currentId b) \<and>
     counter b \<le> counter (forEach_entries es i startX y depth currentId b)"
proof (induction nd and es rule: json_entries_induct)
  case (Value nd)
  show ?case
  proof (intro allI impI)
    fix depth centerX parentId b
    assume pre: "edges_ascend b \<and>
      (\<forall>p. parentId = Some p \<longrightarrow> (\<exists>a < counter b. p = String_nat a))"
    let ?b1 = "enter_value nd depth centerX parentId b"
    have b1: "edges_ascend ?b1" using pre by (simp add: edges_ascend_enter_value)
    show "edges_ascend (traverse nd depth centerX parentId b) \<and>
          counter b \<le> counter (traverse nd depth centerX parentId b)"
    proof (cases "is_container nd")
      case True
      have "\<exists>a < counter ?b1. String_nat (counter b) = String_nat a"
        by (auto simp: counter_enter)
      then have "edges_ascend (forEach_entries (entries nd) 0 (startX_of centerX nd)
            (real depth * 120) depth (String_nat (counter b)) ?b1) \<and>
          counter ?b1 \<le> counter (forEach_entries (entries nd) 0 (startX_of centerX nd)
            (real depth * 120) depth (String_nat (counter b)) ?b1)"
        using Value [OF True] b1 by blast
      then show ?thesis using True by (simp add: traverse_unfold counter_enter)
    next
      case False
      then show ?thesis using b1 by (simp add: traverse_unfold counter_enter)
    qed
  qed
next
  case Nil
  show ?case by simp
next
  case (Cons key val es)
  show ?case
  proof (intro allI impI)
    fix i startX y depth currentId b
    assume pre: "edges_ascend b \<and> (\<exists>a < counter b. currentId = String_nat a)"
    let ?b1 = "enter_entry key val i startX y currentId b"
    let ?b2 = "if is_container val
        then traverse val (depth + 2) (startX + real i * spacing) (Some (String_nat (counter b))) ?b1
        else ?b1"
    have b1: "edges_ascend ?b1" using pre by (simp add: edges_ascend_enter_entry)
    have b2: "edges_ascend ?b2 \<and> counter ?b1 \<le> counter ?b2"
    proof (cases "is_container val")
      case True
      have "\<forall>p. Some (String_nat (counter b)) = Some p \<longrightarrow>
          (\<exists>a < counter ?b1. p = String_nat a)"
        by (auto simp: counter_enter)
      then show ?thesis using Cons(1) [OF True] b1 True by simp
    next
      case False
      then show ?thesis using b1 by simp
    qed
    obtain a where a: "a < counter b" "currentId = String_nat a" using pre by blast
    have "counter b < counter ?b2"
      using b2 counter_enter(2) [of key val i startX y currentId b] by linarith
    then have "a < counter ?b2" using a by simp
    then have "\<exists>a < counter ?b2. currentId = String_nat a" using a by blast
    then have "edges_ascend (forEach_entries es (i + 1) startX y depth currentId ?b2) \<and>
        counter ?b2 \<le> counter (forEach_entries es (i + 1) startX y depth currentId ?b2)"
      using Cons(2) b2 by blast
    then show "edges_ascend (forEach_entries ((key, val) # es) i startX y depth currentId b) \<and>
        counter b \<le> counter (forEach_entries ((key, val) # es) i startX y depth currentId b)"
      using b2 by (simp add: forEach_entries_Cons counter_enter)
  qed
qed

lemma generateFlow_ranked:
  "\<exists>rank :: string \<Rightarrow> nat.
     \<forall>p c. c \<in> set (children_of (parentMap (generateFlow s v)) p) \<longrightarrow> rank c < rank p"
proof -
  let ?b = "traverse v 0 0 None fresh_build"
  let ?rank = "\<lambda>i. counter ?b - nat_of_String i"
  have "edges_ascend fresh_build" by (simp add: edges_ascend_def fresh_build_def)
  then have asc: "edges_ascend ?b" using traverse_ascend(1) [of v] by simp
  have "?rank c < ?rank p" if "c \<in> set (children_of (parentMap (generateFlow s v)) p)" for p c
  proof -
    have "(p, c) \<in> rel_pairs (parentMap (generateFlow s v))"
      using that by (simp add: rel_pairs_def)
    then have "(p, c) \<in> edge_pairs (newEdges ?b)"
      by (simp add: generateFlow_pairs) (simp add: generateFlow_def Let_def)
    then obtain a k where "p = String_nat a" "c = String_nat k" "a < k" "k < counter ?b"
      using asc by (auto simp: edge_pairs_def edges_ascend_def)
    then show ?thesis by (simp add: nat_of_String_nat)
  qed
  then have "\<forall>p c. c \<in> set (children_of (parentMap (generateFlow s v)) p) \<longrightarrow>
      ?rank c < ?rank p"
    by simp
  then show ?thesis by (rule exI [of _ ?rank])
qed

section \<open>Properties of the drag handlers\<close>

subsection \<open>One move\<close>

lemma onNodeDrag_absent: "dragSnapshot s (node_id nd) = None \<Longrightarrow> onNodeDrag s nd = Inr s"
  by (simp add: onNodeDrag_def)

lemma onNodeDrag_active:
  assumes "dragSnapshot s (node_id nd) = Some S" and "map_of S (node_id nd) = Some p0"
  shows "onNodeDrag s nd =
           Inr (if filter (\<lambda>i. i \<noteq> node_id nd) (map fst S) = [] then s
                else s\<lparr>nodes := map (move_node S (delta_x nd p0) (delta_y nd p0)) (nodes s)\<rparr>)"
  using assms by (simp add: onNodeDrag_def Let_def delta_x_def delta_y_def)

lemma move_node_id: "node_id (move_node S dx dy n) = node_id n"
  by (simp add: move_node_def split: option.splits)

lemma move_node_absent: "map_of S (node_id n) = None \<Longrightarrow> move_node S dx dy n = n"
  by (simp add: move_node_def)

lemma move_node_position:
  "map_of S (node_id n) = Some q \<Longrightarrow>
     position (move_node S dx dy n) = \<lparr>pos_x = pos_x q + dx, pos_y = pos_y q + dy\<rparr>"
  by (simp add: move_node_def)

lemma move_node_only_position: "(move_node S dx dy n)\<lparr>position := position n\<rparr> = n"
  by (simp add: move_node_def split: option.splits)

lemma move_node_twice: "move_node S dx dy (move_node S dx' dy' n) = move_node S dx dy n"
  by (simp add: move_node_def split: option.splits)

lemma example_graph_no_drag: "dragSnapshot example_graph i = None"
  by (simp add: example_graph_def generateFlow_def Let_def app0_def)

lemma drag_started_snapshot: "dragSnapshot drag_started ''3'' = Some b_snapshot"
  by code_simp

lemma drag_started_ids: "map node_id (nodes drag_started) = [''1'', ''2'', ''3'', ''4'', ''5'']"
  by code_simp

lemma leaf_started_snapshot:
  "dragSnapshot leaf_started ''1'' = Some [(''1'', \<lparr>pos_x = 0, pos_y = 0\<rparr>)]"
  by code_simp

lemma leaf_started_nodes: "nodes leaf_started = [root_node]"
  by code_simp

text \<open>
  C9: a move for an id without a stored snapshot returns normally and leaves the whole
  state, the live positions among it, as it was.
\<close>

theorem onNodeDrag_no_snapshot:
  "dragSnapshot s (node_id nd) = None \<Longrightarrow> onNodeDrag s nd = Inr s"
  by (rule onNodeDrag_absent)

text \<open>Witness: a move of node 3 on the example graph before any drag has started.\<close>

theorem onNodeDrag_no_snapshot_witness:
  "dragSnapshot example_graph (node_id (dragged_to b_entry 160 150)) = None \<and>
   onNodeDrag example_graph (dragged_to b_entry 160 150) = Inr example_graph"
  using onNodeDrag_no_snapshot [of example_graph "dragged_to b_entry 160 150"]
  by (simp add: example_graph_no_drag)

text \<open>
  C7: during an active drag (a snapshot \<open>S\<close> stored for the root, holding the root's start
  position), a move returns a state on which the same move, repeated, changes nothing.
\<close>

theorem onNodeDrag_idempotent:
  assumes "dragSnapshot s (node_id nd) = Some S" and "map_of S (node_id nd) = Some p0"
  shows "\<exists>s'. onNodeDrag s nd = Inr s' \<and> onNodeDrag s' nd = Inr s'"
proof (cases "filter (\<lambda>i. i \<noteq> node_id nd) (map fst S) = []")
  case True
  then show ?thesis using onNodeDrag_active [OF assms] by simp
next
  case False
  let ?s1 = "s\<lparr>nodes := map (move_node S (delta_x nd p0) (delta_y nd p0)) (nodes s)\<rparr>"
  have "onNodeDrag s nd = Inr ?s1"
    using onNodeDrag_active [OF assms] False by simp
  moreover have "onNodeDrag ?s1 nd = Inr ?s1"
    using onNodeDrag_active [of ?s1 nd S p0] assms False by (simp add: move_node_twice comp_def)
  ultimately show ?thesis by simp
qed

text \<open>Witness: node 3 of the example graph, dragged to (160, 150) twice.\<close>

theorem onNodeDrag_idempotent_witness:
  "\<exists>s'. onNodeDrag drag_started (dragged_to b_entry 160 150) = Inr s' \<and>
        onNodeDrag s' (dragged_to b_entry 160 150) = Inr s'"
  using onNodeDrag_idempotent [of drag_started "dragged_to b_entry 160 150" b_snapshot
      "\<lparr>pos_x = 110, pos_y = 120\<rparr>"]
  by (simp add: drag_started_snapshot dragged_to_def b_entry_def b_snapshot_def)

subsection \<open>Drag start\<close>

lemma collect_loop_Nil: "collect_loop pm [] collected = Some collected"
  by (subst collect_loop.simps) simp

lemma collect_loop_Cons:
  "collect_loop pm (child # rest) collected =
     collect_loop pm (rest @ children_of pm child) (collected @ [child])"
  by (subst collect_loop.simps) (simp add: children_of_def split: option.splits)

text \<open>A whole prefix of the queue is consumed before any of its children.\<close>

lemma collect_loop_level:
  "collect_loop pm (xs @ ys) collected =
     collect_loop pm (ys @ concat (map (children_of pm) xs)) (collected @ xs)"
proof (induction xs arbitrary: ys collected)
  case Nil
  show ?case by simp
next
  case (Cons x xs)
  have "collect_loop pm ((x # xs) @ ys) collected =
      collect_loop pm (xs @ (ys @ children_of pm x)) (collected @ [x])"
    by (simp add: collect_loop_Cons)
  also have "\<dots> = collect_loop pm ((ys @ children_of pm x) @ concat (map (children_of pm) xs))
      ((collected @ [x]) @ xs)"
    by (rule Cons.IH)
  finally show ?case by simp
qed

lemma collectDescendants_leaf:
  "children_of pm r = [] \<Longrightarrow> collectDescendants pm r = Some []"
  by (auto simp: collectDescendants_def children_of_def collect_loop_Nil split: option.splits)

lemma map_of_fold_update:
  "map_of (fold (\<lambda>d snap. AList.update d (f d) snap) ds S0) d =
     (if d \<in> set ds then Some (f d) else map_of S0 d)"
  by (induction ds arbitrary: S0) (simp_all add: update_conv')

lemma onNodeDragStart_leaf:
  "children_of (parentMap s) (node_id nd) = [] \<Longrightarrow>
     onNodeDragStart s nd =
       Some (s\<lparr>dragSnapshot := (dragSnapshot s)(node_id nd \<mapsto>
               [(node_id nd, \<lparr>pos_x = pos_x (position nd), pos_y = pos_y (position nd)\<rparr>)])\<rparr>)"
  by (simp add: onNodeDragStart_def collectDescendants_leaf Let_def)

text \<open>Every snapshot that drag start stores holds an entry for its own root.\<close>

lemma dragStart_snapshot_has_root:
  assumes "onNodeDragStart s nd = Some s'"
  shows "\<exists>S p. dragSnapshot s' (node_id nd) = Some S \<and> map_of S (node_id nd) = Some p"
  using assms
  by (auto simp: onNodeDragStart_def Let_def map_of_fold_update split: option.splits)

lemma pruned_snapshot:
  "stored_snapshot (onNodeDragStart pruned_graph b_entry) ''3'' =
     Some [(''3'', \<lparr>pos_x = 110, pos_y = 120\<rparr>), (''4'', \<lparr>pos_x = 110, pos_y = 240\<rparr>),
           (''5'', \<lparr>pos_x = 110, pos_y = 160\<rparr>)]"
  by code_simp

text \<open>
  What the loop collects: besides what was collected before, every id reachable from the
  queue along the relation index, the queued ids themselves among them.
\<close>

lemma reach_step:
  "{d. \<exists>x \<in> set xs. (x, d) \<in> (rel_pairs pm)\<^sup>*} =
     set xs \<union> {d. \<exists>y \<in> set (concat (map (children_of pm) xs)). (y, d) \<in> (rel_pairs pm)\<^sup>*}"
proof (intro set_eqI iffI)
  fix d assume "d \<in> {d. \<exists>x \<in> set xs. (x, d) \<in> (rel_pairs pm)\<^sup>*}"
  then obtain x where x: "x \<in> set xs" and xd: "(x, d) \<in> (rel_pairs pm)\<^sup>*" by blast
  from xd show "d \<in> set xs \<union>
      {d. \<exists>y \<in> set (concat (map (children_of pm) xs)). (y, d) \<in> (rel_pairs pm)\<^sup>*}"
  proof (cases rule: converse_rtranclE)
    case base
    then show ?thesis using x by simp
  next
    case (step y)
    then have "y \<in> set (concat (map (children_of pm) xs))"
      using x by (auto simp: rel_pairs_def)
    then show ?thesis using step by blast
  qed
next
  fix d assume "d \<in> set xs \<union>
      {d. \<exists>y \<in> set (concat (map (children_of pm) xs)). (y, d) \<in> (rel_pairs pm)\<^sup>*}"
  then consider "d \<in> set xs"
    | y where "y \<in> set (concat (map (children_of pm) xs))" "(y, d) \<in> (rel_pairs pm)\<^sup>*"
    by blast
  then show "d \<in> {d. \<exists>x \<in> set xs. (x, d) \<in> (rel_pairs pm)\<^sup>*}"
  proof cases
    case 1
    then show ?thesis by blast
  next
    case 2
    then obtain x where "x \<in> set xs" and "(x, y) \<in> rel_pairs pm"
      by (auto simp: rel_pairs_def)
    then show ?thesis using 2 by (blast intro: converse_rtrancl_into_rtrancl)
  qed
qed

lemma collect_loop_collects:
  assumes rank: "\<forall>p c. c \<in> set (children_of pm p) \<longrightarrow> rank c < (rank p :: nat)"
  shows "\<forall>x \<in> set xs. rank x < n \<Longrightarrow>
     \<exists>ds. collect_loop pm xs collected = Some ds \<and>
          set ds = set collected \<union> {d. \<exists>x \<in> set xs. (x, d) \<in> (rel_pairs pm)\<^sup>*}"
proof (induction n arbitrary: xs collected)
  case 0
  then have "xs = []" by (cases xs) auto
  then show ?case by (simp add: collect_loop_Nil)
next
  case (Suc n)
  let ?ys = "concat (map (children_of pm) xs)"
  have "\<forall>c \<in> set ?ys. rank c < n"
  proof
    fix c assume "c \<in> set ?ys"
    then obtain x where "x \<in> set xs" and "c \<in> set (children_of pm x)" by auto
    then have "rank c < rank x" and "rank x < Suc n" using rank Suc.prems by auto
    then show "rank c < n" by simp
  qed
  then obtain ds where ds: "collect_loop pm ?ys (collected @ xs) = Some ds"
    and set_ds: "set ds = set (collected @ xs) \<union> {d. \<exists>y \<in> set ?ys. (y, d) \<in> (rel_pairs pm)\<^sup>*}"
    using Suc.IH [of ?ys "collected @ xs"] by blast
  have "collect_loop pm xs collected = Some ds"
    using ds collect_loop_level [of pm xs "[]" collected] by simp
  moreover have "set ds = set collected \<union> {d. \<exists>x \<in> set xs. (x, d) \<in> (rel_pairs pm)\<^sup>*}"
    using set_ds reach_step [of xs pm] by auto
  ultimately show ?case by blast
qed

text \<open>
  \<open>collectDescendants\<close> returns, and what it returns are exactly the ids reachable from
  the given id by one or more steps of the relation index.
\<close>

lemma collectDescendants_descendants:
  assumes "\<forall>p c. c \<in> set (children_of pm p) \<longrightarrow> rank c < (rank p :: nat)"
  shows "\<exists>ds. collectDescendants pm r = Some ds \<and> set ds = {d. (r, d) \<in> (rel_pairs pm)\<^sup>+}"
proof -
  have "\<forall>x \<in> set (children_of pm r). rank x < rank r" using assms by simp
  then obtain ds where ds: "collect_loop pm (children_of pm r) [] = Some ds"
    and set_ds: "set ds = set [] \<union> {d. \<exists>x \<in> set (children_of pm r). (x, d) \<in> (rel_pairs pm)\<^sup>*}"
    using collect_loop_collects [OF assms, of "children_of pm r" "rank r" "[]"] by blast
  have "{d. \<exists>x \<in> set (children_of pm r). (x, d) \<in> (rel_pairs pm)\<^sup>*} =
      {d. (r, d) \<in> (rel_pairs pm)\<^sup>+}"
  proof (intro set_eqI iffI)
    fix d assume "d \<in> {d. \<exists>x \<in> set (children_of pm r). (x, d) \<in> (rel_pairs pm)\<^sup>*}"
    then obtain x where "(r, x) \<in> rel_pairs pm" and "(x, d) \<in> (rel_pairs pm)\<^sup>*"
      by (auto simp: rel_pairs_def)
    then show "d \<in> {d. (r, d) \<in> (rel_pairs pm)\<^sup>+}"
      by (simp add: rtrancl_into_trancl2)
  next
    fix d assume "d \<in> {d. (r, d) \<in> (rel_pairs pm)\<^sup>+}"
    then obtain x where "(r, x) \<in> rel_pairs pm" and "(x, d) \<in> (rel_pairs pm)\<^sup>*"
      by (auto dest: tranclD)
    then show "d \<in> {d. \<exists>x \<in> set (children_of pm r). (x, d) \<in> (rel_pairs pm)\<^sup>*}"
      by (auto simp: rel_pairs_def)
  qed
  then show ?thesis
    using ds set_ds by (simp add: collectDescendants_def children_of_def)
qed

lemma pruned_graph_facts:
  "children_of (parentMap pruned_graph) ''4'' = [''5'']"
  "nodeMap (nodes pruned_graph) ''4'' = Some \<lparr>pos_x = 110, pos_y = 240\<rparr>"
  "nodeMap (nodes pruned_graph) ''5'' = None"
  by code_simp+

text \<open>
  C10, as stated, fails for a descendant that is not a direct child of the dragged node.
  In the example graph without the live node 5, a drag starts on node 3 at (110, 120).
  The parent of node 5 is node 4, live at (110, 240); the snapshot seeds node 5 at
  (110, 160), the position of the dragged node 3 with 40 added, not at the position of
  its parent with 40 added.
\<close>

theorem fallback_parent_counterexample:
  "children_of (parentMap pruned_graph) ''4'' = [''5''] \<and>
   nodeMap (nodes pruned_graph) ''4'' = Some \<lparr>pos_x = 110, pos_y = 240\<rparr> \<and>
   nodeMap (nodes pruned_graph) ''5'' = None \<and>
   stored_snapshot (onNodeDragStart pruned_graph b_entry) ''3'' =
     Some [(''3'', \<lparr>pos_x = 110, pos_y = 120\<rparr>), (''4'', \<lparr>pos_x = 110, pos_y = 240\<rparr>),
           (''5'', \<lparr>pos_x = 110, pos_y = 160\<rparr>)] \<and>
   \<lparr>pos_x = 110, pos_y = 160\<rparr> \<noteq> \<lparr>pos_x = 110, pos_y = 240 + 40 :: real\<rparr>"
  using pruned_graph_facts pruned_snapshot by simp

text \<open>
  C10, amended: on a relation index committed by a build, whatever the live nodes are,
  drag start returns. The ids it collects are exactly the ids reachable from the dragged
  id by one or more steps of the relation index, and the snapshot it stores under the
  dragged id holds, for every one of them that is missing from the live nodes, the
  position of the dragged node with 40 added to \<open>y\<close>.
\<close>

theorem dragStart_fallback:
  fixes s :: "('a::{plus,numeral}) app"
  assumes "parentMap s = parentMap (generateFlow s0 v)"
  shows "\<exists>ds S. collectDescendants (parentMap s) (node_id nd) = Some ds \<and>
           set ds = {d. (node_id nd, d) \<in> (rel_pairs (parentMap s))\<^sup>+} \<and>
           onNodeDragStart s nd = Some (s\<lparr>dragSnapshot := (dragSnapshot s)(node_id nd \<mapsto> S)\<rparr>) \<and>
           (\<forall>d. (node_id nd, d) \<in> (rel_pairs (parentMap s))\<^sup>+ \<and> nodeMap (nodes s) d = None \<longrightarrow>
              map_of S d = Some (fallback_pos nd))"
proof -
  obtain rank :: "string \<Rightarrow> nat"
    where "\<forall>p c. c \<in> set (children_of (parentMap s) p) \<longrightarrow> rank c < rank p"
    using generateFlow_ranked [of s0 v] assms by auto
  then obtain ds where ds: "collectDescendants (parentMap s) (node_id nd) = Some ds"
    and set_ds: "set ds = {d. (node_id nd, d) \<in> (rel_pairs (parentMap s))\<^sup>+}"
    using collectDescendants_descendants [of "parentMap s" rank "node_id nd"] by blast
  let ?S = "fold (\<lambda>d snap. AList.update d (snapshot_entry (nodeMap (nodes s)) nd d) snap) ds
              [(node_id nd, \<lparr>pos_x = pos_x (position nd), pos_y = pos_y (position nd)\<rparr>)]"
  have "onNodeDragStart s nd = Some (s\<lparr>dragSnapshot := (dragSnapshot s)(node_id nd \<mapsto> ?S)\<rparr>)"
    by (simp add: onNodeDragStart_def ds Let_def)
  moreover have "map_of ?S d = Some (fallback_pos nd)"
    if "(node_id nd, d) \<in> (rel_pairs (parentMap s))\<^sup>+" and "nodeMap (nodes s) d = None" for d
  proof -
    have "d \<in> set ds" using that(1) set_ds by simp
    then show ?thesis
      using that(2) by (simp add: map_of_fold_update snapshot_entry_def fallback_pos_def)
  qed
  ultimately show ?thesis using ds set_ds by blast
qed

text \<open>
  Witness: node 5 is gone from the live nodes of the example graph and node 3 is dragged;
  node 5 is reachable from node 3 in two steps, and the snapshot seeds it at (110, 120 + 40).
\<close>

theorem dragStart_fallback_witness:
  "(\<exists>ds S. collectDescendants (parentMap pruned_graph) (node_id b_entry) = Some ds \<and>
      set ds = {d. (node_id b_entry, d) \<in> (rel_pairs (parentMap pruned_graph))\<^sup>+} \<and>
      onNodeDragStart pruned_graph b_entry =
        Some (pruned_graph\<lparr>dragSnapshot := (dragSnapshot pruned_graph)(node_id b_entry \<mapsto> S)\<rparr>) \<and>
      (\<forall>d. (node_id b_entry, d) \<in> (rel_pairs (parentMap pruned_graph))\<^sup>+ \<and>
           nodeMap (nodes pruned_graph) d = None \<longrightarrow>
         map_of S d = Some (fallback_pos b_entry))) \<and>
   stored_snapshot (onNodeDragStart pruned_graph b_entry) ''3'' =
     Some [(''3'', \<lparr>pos_x = 110, pos_y = 120\<rparr>), (''4'', \<lparr>pos_x = 110, pos_y = 240\<rparr>),
           (''5'', \<lparr>pos_x = 110, pos_y = 160\<rparr>)]"
proof -
  have "parentMap pruned_graph = parentMap (generateFlow app0 example_json)"
    by (simp add: pruned_graph_def example_graph_def)
  then show ?thesis
    using dragStart_fallback [of pruned_graph app0 example_json b_entry] pruned_snapshot
    by blast
qed

subsection \<open>Frame\<close>

lemma a_entry_leaf: "children_of (parentMap example_graph) (node_id a_entry) = []"
  by code_simp

text \<open>
  C8: a move that returns leaves the edges, the relation index and the snapshots alone,
  keeps the list of live nodes in length and order, changes no field of a node other than
  its position, and changes nothing at all of a node whose id is not a key of the snapshot
  of the dragged id. For a node without children in the relation index, drag start stores
  a snapshot of that node alone, and every move of it returns the state unchanged: the
  handler moves no other node.
\<close>

theorem onNodeDrag_frame:
  "(onNodeDrag s nd = Inr s' \<longrightarrow>
      edges s' = edges s \<and> parentMap s' = parentMap s \<and> dragSnapshot s' = dragSnapshot s \<and>
      length (nodes s') = length (nodes s) \<and>
      (\<forall>i < length (nodes s).
         (nodes s' ! i)\<lparr>position := position (nodes s ! i)\<rparr> = nodes s ! i \<and>
         (node_id (nodes s ! i) \<notin> snapshot_ids s (node_id nd) \<longrightarrow> nodes s' ! i = nodes s ! i))) \<and>
   (children_of (parentMap s) (node_id nd) = [] \<and> node_id nd' = node_id nd \<longrightarrow>
      (\<exists>s1. onNodeDragStart s nd = Some s1 \<and> onNodeDrag s1 nd' = Inr s1))"
proof (intro conjI impI)
  assume leaf: "children_of (parentMap s) (node_id nd) = [] \<and> node_id nd' = node_id nd"
  let ?S = "[(node_id nd, \<lparr>pos_x = pos_x (position nd), pos_y = pos_y (position nd)\<rparr>)]"
  let ?s1 = "s\<lparr>dragSnapshot := (dragSnapshot s)(node_id nd \<mapsto> ?S)\<rparr>"
  have "onNodeDragStart s nd = Some ?s1" using leaf by (simp add: onNodeDragStart_leaf)
  moreover have "onNodeDrag ?s1 nd' = Inr ?s1"
    using leaf onNodeDrag_active [of ?s1 nd' ?S] by simp
  ultimately show "\<exists>s1. onNodeDragStart s nd = Some s1 \<and> onNodeDrag s1 nd' = Inr s1" by blast
next
  assume run: "onNodeDrag s nd = Inr s'"
  have shape: "s' = s \<or>
      (\<exists>S dx dy. dragSnapshot s (node_id nd) = Some S \<and>
         s' = s\<lparr>nodes := map (move_node S dx dy) (nodes s)\<rparr>)"
    using run by (auto simp: onNodeDrag_def Let_def split: option.splits if_splits)
  show "edges s' = edges s" "parentMap s' = parentMap s" "dragSnapshot s' = dragSnapshot s"
    "length (nodes s') = length (nodes s)"
    using shape by auto
  show "\<forall>i < length (nodes s).
         (nodes s' ! i)\<lparr>position := position (nodes s ! i)\<rparr> = nodes s ! i \<and>
         (node_id (nodes s ! i) \<notin> snapshot_ids s (node_id nd) \<longrightarrow> nodes s' ! i = nodes s ! i)"
  proof (intro allI impI)
    fix i assume i: "i < length (nodes s)"
    from shape show "(nodes s' ! i)\<lparr>position := position (nodes s ! i)\<rparr> = nodes s ! i \<and>
         (node_id (nodes s ! i) \<notin> snapshot_ids s (node_id nd) \<longrightarrow> nodes s' ! i = nodes s ! i)"
    proof
      assume "s' = s"
      then show ?thesis by simp
    next
      assume "\<exists>S dx dy. dragSnapshot s (node_id nd) = Some S \<and>
          s' = s\<lparr>nodes := map (move_node S dx dy) (nodes s)\<rparr>"
      then obtain S dx dy where S: "dragSnapshot s (node_id nd) = Some S"
        and s': "s' = s\<lparr>nodes := map (move_node S dx dy) (nodes s)\<rparr>" by blast
      have "map_of S (node_id (nodes s ! i)) = None"
        if "node_id (nodes s ! i) \<notin> snapshot_ids s (node_id nd)"
        using that S by (simp add: snapshot_ids_def map_of_eq_None_iff)
      then show ?thesis using i s' by (simp add: move_node_only_position move_node_absent)
    qed
  qed
qed

text \<open>
  Witness: dragging node 3 of the example graph by (50, 30) leaves nodes 1 and 2 as they
  were; node 2 has no children, and a drag of it moves nothing through the handler.
\<close>

theorem onNodeDrag_frame_witness:
  "(onNodeDrag drag_started (dragged_to b_entry 160 150) = Inr moved_state \<and>
    nodes moved_state ! 0 = nodes drag_started ! 0 \<and>
    nodes moved_state ! 1 = nodes drag_started ! 1) \<and>
   (children_of (parentMap example_graph) (node_id a_entry) = [] \<and>
    (\<exists>s1. onNodeDragStart example_graph a_entry = Some s1 \<and>
          onNodeDrag s1 (dragged_to a_entry (- 60) 150) = Inr s1))"
proof -
  have run: "onNodeDrag drag_started (dragged_to b_entry 160 150) = Inr moved_state"
    using onNodeDrag_active [of drag_started "dragged_to b_entry 160 150" b_snapshot
        "\<lparr>pos_x = 110, pos_y = 120\<rparr>"]
    by (simp add: drag_started_snapshot dragged_to_def b_entry_def b_snapshot_def moved_state_def
          delta_x_def delta_y_def)
  have len: "length (nodes drag_started) = 5"
    using arg_cong [OF drag_started_ids, of length] by simp
  have ids: "node_id (nodes drag_started ! 0) = ''1''" "node_id (nodes drag_started ! 1) = ''2''"
    using arg_cong [OF drag_started_ids, of "\<lambda>xs. xs ! 0"]
      arg_cong [OF drag_started_ids, of "\<lambda>xs. xs ! 1"] len by simp_all
  have snap: "snapshot_ids drag_started (node_id (dragged_to b_entry 160 150)) = {''3'', ''4'', ''5''}"
    by (simp add: snapshot_ids_def dragged_to_def b_entry_def drag_started_snapshot b_snapshot_def)
  have "nodes moved_state ! 0 = nodes drag_started ! 0 \<and>
      nodes moved_state ! 1 = nodes drag_started ! 1"
    using onNodeDrag_frame [of drag_started "dragged_to b_entry 160 150" moved_state]
      run len ids snap
    by simp
  moreover have "\<exists>s1. onNodeDragStart example_graph a_entry = Some s1 \<and>
          onNodeDrag s1 (dragged_to a_entry (- 60) 150) = Inr s1"
    using onNodeDrag_frame [of example_graph a_entry moved_state "dragged_to a_entry (- 60) 150"]
      a_entry_leaf
    by (simp add: dragged_to_def)
  ultimately show ?thesis using run a_entry_leaf by simp
qed

subsection \<open>Rigid movement\<close>

lemma library_move_ids: "map node_id (nodes (library_move s nd)) = map node_id (nodes s)"
  by (simp add: library_move_def comp_def)

lemma library_move_twice:
  "node_id e' = node_id e \<Longrightarrow> library_move (library_move s e) e' = library_move s e'"
  by (simp add: library_move_def comp_def)

lemma move_node_library:
  assumes "map_of S (node_id nd) = Some p0"
  shows "move_node S dx dy (if node_id n = node_id nd then n\<lparr>position := position nd\<rparr> else n) =
           move_node S dx dy n"
  using assms by (simp add: move_node_def)

text \<open>
  One move during an active drag: with a descendant in the snapshot the handler rewrites
  every node of the snapshot, the root among them; with the root alone it returns at once
  and the renderer's update is all that happened.
\<close>

lemma DragMove_active:
  assumes "dragSnapshot s (node_id nd) = Some S" and "map_of S (node_id nd) = Some p0"
  shows "DragMove s nd =
           Inr (if filter (\<lambda>i. i \<noteq> node_id nd) (map fst S) = [] then library_move s nd
                else s\<lparr>nodes := map (move_node S (delta_x nd p0) (delta_y nd p0)) (nodes s)\<rparr>)"
proof -
  have "dragSnapshot (library_move s nd) (node_id nd) = Some S"
    using assms by (simp add: library_move_def)
  then have "onNodeDrag (library_move s nd) nd =
      Inr (if filter (\<lambda>i. i \<noteq> node_id nd) (map fst S) = [] then library_move s nd
           else (library_move s nd)\<lparr>nodes :=
                  map (move_node S (delta_x nd p0) (delta_y nd p0)) (nodes (library_move s nd))\<rparr>)"
    using assms(2) by (rule onNodeDrag_active)
  moreover have "(library_move s nd)\<lparr>nodes :=
        map (move_node S (delta_x nd p0) (delta_y nd p0)) (nodes (library_move s nd))\<rparr> =
      s\<lparr>nodes := map (move_node S (delta_x nd p0) (delta_y nd p0)) (nodes s)\<rparr>"
    by (simp add: library_move_def comp_def move_node_library [OF assms(2)])
  ultimately show ?thesis by (simp add: DragMove_def)
qed

lemma drag_moves_result:
  assumes "dragSnapshot s r = Some S" and "map_of S r = Some p0"
    and "\<forall>e \<in> set evs. node_id e = r" and "evs \<noteq> []"
  shows "drag_moves s evs =
           Inr (if filter (\<lambda>i. i \<noteq> r) (map fst S) = [] then library_move s (last evs)
                else s\<lparr>nodes := map (move_node S (delta_x (last evs) p0) (delta_y (last evs) p0))
                                    (nodes s)\<rparr>)"
  using assms
proof (induction evs arbitrary: s)
  case Nil
  then show ?case by simp
next
  case (Cons e evs)
  let ?leaf = "filter (\<lambda>i. i \<noteq> r) (map fst S) = []"
  let ?s1 = "if ?leaf then library_move s e
             else s\<lparr>nodes := map (move_node S (delta_x e p0) (delta_y e p0)) (nodes s)\<rparr>"
  have e: "node_id e = r" using Cons.prems by simp
  have step: "DragMove s e = Inr ?s1"
    using DragMove_active [of s e S p0] Cons.prems e by simp
  show ?case
  proof (cases "evs = []")
    case True
    then show ?thesis using step by simp
  next
    case False
    have snap: "dragSnapshot ?s1 r = Some S"
      using Cons.prems by (simp add: library_move_def)
    have last: "node_id (last evs) = r" using Cons.prems False by simp
    have "drag_moves ?s1 evs =
        Inr (if ?leaf then library_move ?s1 (last evs)
             else ?s1\<lparr>nodes := map (move_node S (delta_x (last evs) p0) (delta_y (last evs) p0))
                                   (nodes ?s1)\<rparr>)"
      using snap Cons.prems False by (intro Cons.IH) simp_all
    then show ?thesis
      using step False e last by (simp add: move_node_twice comp_def library_move_twice)
  qed
qed

lemma leaf_snapshot_key:
  assumes "filter (\<lambda>i. i \<noteq> r) (map fst S) = []" and "map_of S k = Some q"
  shows "k = r"
proof -
  have "(k, q) \<in> set S" by (rule map_of_SomeD [OF assms(2)])
  then have "k \<in> set (map fst S)" by force
  then show ?thesis using assms(1) by (auto simp: filter_empty_conv)
qed

text \<open>
  The live positions after a sequence of moves, for any coordinate type: no law of \<open>+\<close>
  or \<open>-\<close> is used.
\<close>

lemma drag_moves_positions:
  assumes "dragSnapshot s r = Some S" and "map_of S r = Some p0"
    and "\<forall>e \<in> set evs. node_id e = r" and "node_id ev = r"
    and "drag_moves s (evs @ [ev]) = Inr s'"
    and "n \<in> set (nodes s')" and "map_of S (node_id n) = Some q"
  shows "position n =
           (if filter (\<lambda>i. i \<noteq> r) (map fst S) = [] then position ev
            else \<lparr>pos_x = pos_x q + (pos_x (position ev) - pos_x p0),
                  pos_y = pos_y q + (pos_y (position ev) - pos_y p0)\<rparr>)"
proof (cases "filter (\<lambda>i. i \<noteq> r) (map fst S) = []")
  case True
  have "s' = library_move s ev"
    using drag_moves_result [of s r S p0 "evs @ [ev]"] assms(1-5) True by simp
  then obtain n0 where n0: "n0 \<in> set (nodes s)"
    and n: "n = (if node_id n0 = node_id ev then n0\<lparr>position := position ev\<rparr> else n0)"
    using assms(6) by (auto simp: library_move_def)
  have "node_id n = r" using leaf_snapshot_key [OF True assms(7)] .
  then have "node_id n0 = node_id ev" using n assms(4) by (simp split: if_splits)
  then show ?thesis using n True by simp
next
  case False
  let ?m = "move_node S (delta_x ev p0) (delta_y ev p0)"
  have "s' = s\<lparr>nodes := map ?m (nodes s)\<rparr>"
    using drag_moves_result [of s r S p0 "evs @ [ev]"] assms(1-5) False by simp
  then obtain n0 where n0: "n0 \<in> set (nodes s)" and n: "n = ?m n0"
    using assms(6) by auto
  have "map_of S (node_id n0) = Some q" using assms(7) n by (simp add: move_node_id)
  then show ?thesis
    using n False by (simp add: move_node_position delta_x_def delta_y_def)
qed

text \<open>In exact arithmetic the two cases are the one equation of the specification.\<close>

lemma drag_moves_positions_exact:
  fixes s :: "('a::ab_group_add) app"
  assumes "dragSnapshot s r = Some S" and "map_of S r = Some p0"
    and "\<forall>e \<in> set evs. node_id e = r" and "node_id ev = r"
    and "drag_moves s (evs @ [ev]) = Inr s'"
    and "n \<in> set (nodes s')" and "map_of S (node_id n) = Some q"
  shows "position n = \<lparr>pos_x = pos_x q + (pos_x (position ev) - pos_x p0),
                        pos_y = pos_y q + (pos_y (position ev) - pos_y p0)\<rparr>"
proof (cases "filter (\<lambda>i. i \<noteq> r) (map fst S) = []")
  case True
  have "node_id n = r" using leaf_snapshot_key [OF True assms(7)] .
  then have "q = p0" using assms(2,7) by simp
  moreover have "position n = position ev"
    using drag_moves_positions [OF assms] True by simp
  ultimately show ?thesis by simp
next
  case False
  then show ?thesis using drag_moves_positions [OF assms] by simp
qed

text \<open>Checks of the rounding against the program's own results.\<close>

lemma dbl_examples:
  "dbl_of (1 / 10) = Dbl (3602879701896397 / 36028797018963968)"
  "dbl_of (1 / 10) + dbl_of (2 / 10) = Dbl (1351079888211149 / 4503599627370496)"
  "Dbl 9007199254740992 + Dbl 1 = Dbl 9007199254740992"
  "Dbl 9007199254740994 + Dbl 1 = Dbl 9007199254740996"
  "dbl_of (503 / 10) - Dbl (- 110) = Dbl (2820027422919885 / 17592186044416)"
  by code_simp+

text \<open>
  C1, as stated, fails in the arithmetic of the program, whichever way its equation is
  read. Read in that arithmetic: the childless node 2, dragged from (-110, 120) to
  (50.3, 120), is live at 50.3, where the renderer put it, and the handler wrote nothing;
  but \<open>-110 + (50.3 - (-110))\<close> is 50.30000000000001 there, the difference 160.3 being
  rounded. Read in exact arithmetic: node 4, the child of node 3 dragged from (110, 120) to
  (0.1, 120), is live at 0.09999999999999432, which is \<open>110 + (0.1 - 110)\<close> with the
  difference rounded, and not the exact value of that expression, the number 0.1.
\<close>

theorem rounding_counterexample:
  "live_after (DragMove rounding_leaf rounding_leaf_event) ''2'' =
     Some \<lparr>pos_x = dbl_of (503 / 10), pos_y = Dbl 120\<rparr> \<and>
   Dbl (- 110) + (dbl_of (503 / 10) - Dbl (- 110)) \<noteq> dbl_of (503 / 10) \<and>
   live_after (DragMove rounding_tree rounding_tree_event) ''4'' =
     Some \<lparr>pos_x = Dbl (3518437208883 / 35184372088832), pos_y = Dbl 240\<rparr> \<and>
   3518437208883 / 35184372088832 \<noteq> 110 + (dbl_value (dbl_of (1 / 10)) - 110)"
  by code_simp

text \<open>
  C1, amended: during an active drag of root \<open>r\<close> with snapshot \<open>S\<close>, any sequence of moves
  of \<open>r\<close> that ends with the position \<open>P\<close> returns and keeps the ids of the live nodes. If
  \<open>S\<close> holds an id besides \<open>r\<close>, every live node whose id is in \<open>S\<close>, the root among them, is
  then at \<open>S(n) + (P - S(r))\<close> as the handler computes it from the frozen snapshot in the
  arithmetic of the coordinates, however many moves came before. If \<open>S\<close> holds \<open>r\<close> alone,
  the handler writes nothing and the root is at \<open>P\<close>.
\<close>

theorem rigid_drag:
  fixes s :: "('a::{plus,minus}) app"
  assumes "dragSnapshot s r = Some S" and "map_of S r = Some p0"
    and "\<forall>e \<in> set evs. node_id e = r" and "node_id ev = r"
  shows "\<exists>s'. drag_moves s (evs @ [ev]) = Inr s' \<and>
           map node_id (nodes s') = map node_id (nodes s) \<and>
           (\<forall>n \<in> set (nodes s'). \<forall>q. map_of S (node_id n) = Some q \<longrightarrow>
              position n =
                (if filter (\<lambda>i. i \<noteq> r) (map fst S) = [] then position ev
                 else \<lparr>pos_x = pos_x q + (pos_x (position ev) - pos_x p0),
                       pos_y = pos_y q + (pos_y (position ev) - pos_y p0)\<rparr>))"
proof -
  let ?leaf = "filter (\<lambda>i. i \<noteq> r) (map fst S) = []"
  let ?s' = "if ?leaf then library_move s ev
             else s\<lparr>nodes := map (move_node S (delta_x ev p0) (delta_y ev p0)) (nodes s)\<rparr>"
  have run: "drag_moves s (evs @ [ev]) = Inr ?s'"
    using drag_moves_result [of s r S p0 "evs @ [ev]"] assms by simp
  moreover have "map node_id (nodes ?s') = map node_id (nodes s)"
    by (simp add: library_move_ids move_node_id comp_def)
  moreover have "position n =
      (if ?leaf then position ev
       else \<lparr>pos_x = pos_x q + (pos_x (position ev) - pos_x p0),
             pos_y = pos_y q + (pos_y (position ev) - pos_y p0)\<rparr>)"
    if "n \<in> set (nodes ?s')" and "map_of S (node_id n) = Some q" for n q
    using drag_moves_positions [OF assms run that] .
  ultimately show ?thesis by blast
qed

text \<open>
  Witness: node 3 of the example graph dragged to (130, 125) and then to (160, 150): nodes
  3, 4 and 5 end 50 to the right of and 30 below their snapshot positions. And the single
  node of the graph of \<open>[]\<close>, dragged to (50, 30): it is there. And, in the arithmetic of
  the program, node 3 with its child 4 dragged to (0.1, 120).
\<close>

theorem rigid_drag_witness:
  "(\<exists>s'. drag_moves drag_started [dragged_to b_entry 130 125, dragged_to b_entry 160 150] = Inr s' \<and>
        map node_id (nodes s') = map node_id (nodes drag_started) \<and>
        (\<forall>n \<in> set (nodes s'). \<forall>q. map_of b_snapshot (node_id n) = Some q \<longrightarrow>
           position n = \<lparr>pos_x = pos_x q + 50, pos_y = pos_y q + 30\<rparr>)) \<and>
   (\<exists>s'. drag_moves leaf_started [dragged_to root_node 50 30] = Inr s' \<and>
        map position (nodes s') = [\<lparr>pos_x = 50, pos_y = 30\<rparr>]) \<and>
   (\<exists>s'. drag_moves rounding_tree [rounding_tree_event] = Inr s' \<and>
        (\<forall>n \<in> set (nodes s'). \<forall>q.
           map_of [(''3'', \<lparr>pos_x = Dbl 110, pos_y = Dbl 120\<rparr>),
                   (''4'', \<lparr>pos_x = Dbl 110, pos_y = Dbl 240\<rparr>)] (node_id n) = Some q \<longrightarrow>
           position n = \<lparr>pos_x = pos_x q + (dbl_of (1 / 10) - Dbl 110),
                          pos_y = pos_y q + (Dbl 120 - Dbl 120)\<rparr>))"
proof -
  have "\<exists>s'. drag_moves drag_started [dragged_to b_entry 130 125, dragged_to b_entry 160 150] =
          Inr s' \<and>
        map node_id (nodes s') = map node_id (nodes drag_started) \<and>
        (\<forall>n \<in> set (nodes s'). \<forall>q. map_of b_snapshot (node_id n) = Some q \<longrightarrow>
           position n = \<lparr>pos_x = pos_x q + 50, pos_y = pos_y q + 30\<rparr>)"
    using rigid_drag [of drag_started "''3''" b_snapshot "\<lparr>pos_x = 110, pos_y = 120\<rparr>"
        "[dragged_to b_entry 130 125]" "dragged_to b_entry 160 150"]
    by (simp add: drag_started_snapshot dragged_to_def b_entry_def b_snapshot_def)
  moreover have "\<exists>s'. drag_moves leaf_started [dragged_to root_node 50 30] = Inr s' \<and>
        map position (nodes s') = [\<lparr>pos_x = 50, pos_y = 30\<rparr>]"
  proof -
    obtain s' where run: "drag_moves leaf_started [dragged_to root_node 50 30] = Inr s'"
      and ids: "map node_id (nodes s') = map node_id (nodes leaf_started)"
      and pos: "\<forall>n \<in> set (nodes s'). \<forall>q.
          map_of [(''1'', \<lparr>pos_x = 0, pos_y = 0 :: real\<rparr>)] (node_id n) = Some q \<longrightarrow>
          position n = position (dragged_to root_node 50 30)"
      using rigid_drag [of leaf_started "''1''" "[(''1'', \<lparr>pos_x = 0, pos_y = 0\<rparr>)]"
          "\<lparr>pos_x = 0, pos_y = 0\<rparr>" "[]" "dragged_to root_node 50 30"]
      by (auto simp: leaf_started_snapshot dragged_to_def root_node_def)
    from ids obtain n where n: "nodes s' = [n]" and "node_id n = ''1''"
      by (auto simp: leaf_started_nodes root_node_def)
    then have "position n = \<lparr>pos_x = 50, pos_y = 30\<rparr>"
      using pos by (simp add: dragged_to_def)
    then show ?thesis using run n by simp
  qed
  moreover have "\<exists>s'. drag_moves rounding_tree [rounding_tree_event] = Inr s' \<and>
        (\<forall>n \<in> set (nodes s'). \<forall>q.
           map_of [(''3'', \<lparr>pos_x = Dbl 110, pos_y = Dbl 120\<rparr>),
                   (''4'', \<lparr>pos_x = Dbl 110, pos_y = Dbl 240\<rparr>)] (node_id n) = Some q \<longrightarrow>
           position n = \<lparr>pos_x = pos_x q + (dbl_of (1 / 10) - Dbl 110),
                          pos_y = pos_y q + (Dbl 120 - Dbl 120)\<rparr>)"
  proof -
    have snap: "dragSnapshot rounding_tree ''3'' =
        Some [(''3'', \<lparr>pos_x = Dbl 110, pos_y = Dbl 120\<rparr>), (''4'', \<lparr>pos_x = Dbl 110, pos_y = Dbl 240\<rparr>)]"
      by (simp add: rounding_tree_def)
    have ev: "node_id rounding_tree_event = ''3''"
      "position rounding_tree_event = \<lparr>pos_x = dbl_of (1 / 10), pos_y = Dbl 120\<rparr>"
      by (simp_all add: rounding_tree_event_def)
    show ?thesis
      using rigid_drag [of rounding_tree "''3''"
          "[(''3'', \<lparr>pos_x = Dbl 110, pos_y = Dbl 120\<rparr>), (''4'', \<lparr>pos_x = Dbl 110, pos_y = Dbl 240\<rparr>)]"
          "\<lparr>pos_x = Dbl 110, pos_y = Dbl 120\<rparr>" "[]" rounding_tree_event] snap ev
      by fastforce
  qed
  ultimately show ?thesis by simp
qed

subsection \<open>Rebuild during a drag\<close>

lemma dragSnapshot_generateFlow: "dragSnapshot (generateFlow s v) = dragSnapshot s"
  by (simp add: generateFlow_def Let_def)

lemma dragSnapshot_inputEffect: "dragSnapshot (inputEffect s inp m) = dragSnapshot s"
  by (cases inp) (simp_all add: dragSnapshot_generateFlow Let_def)

text \<open>
  C5, as stated, fails: with a drag active on node 3 of the example graph, the input changes
  to \<open>[]\<close> and the graph is rebuilt. The snapshot keyed on 3 is still stored, while the only
  live node is 1.
\<close>

theorem rebuild_counterexample:
  "dragSnapshot (inputEffect drag_started (ParsedInput (JArr [])) Visualize) ''3'' =
     Some b_snapshot \<and>
   ''3'' \<notin> set (map node_id (nodes (inputEffect drag_started (ParsedInput (JArr [])) Visualize)))"
proof -
  have "map node_id (nodes (inputEffect drag_started (ParsedInput (JArr [])) Visualize)) = [''1'']"
    by code_simp
  moreover have
    "dragSnapshot (inputEffect drag_started (ParsedInput (JArr [])) Visualize) ''3'' =
       Some b_snapshot"
    by (simp only: dragSnapshot_inputEffect drag_started_snapshot)
  ultimately show ?thesis by simp
qed

text \<open>
  C5, amended: a rebuild does not touch the snapshots. \<open>generateFlow\<close> and the input effect,
  on any input and in any mode, leave \<open>dragSnapshot\<close> exactly as it was; the snapshot of an
  id is removed by the drag stop of that id.
\<close>

theorem rebuild_keeps_snapshots:
  "dragSnapshot (generateFlow s v) = dragSnapshot s \<and>
   dragSnapshot (inputEffect s inp m) = dragSnapshot s \<and>
   dragSnapshot (onNodeDragStop s nd) (node_id nd) = None"
  by (simp add: dragSnapshot_generateFlow dragSnapshot_inputEffect onNodeDragStop_def)

end
